theory Spec2Isabelle
  imports Complex_Main "HOL-Library.Multiset"
begin

section \<open>Collections of meshes\<close>

text \<open>
  A shallow embedding of \<^verbatim>\<open>capytaine/mesh/meshes_collection.py\<close>: the class
  \<^verbatim>\<open>CollectionOfMeshes\<close>, a tuple of meshes that may be nested. Python objects are
  modelled as values: every collection owns its children, no child is shared between
  two places of a tree. Only \<^verbatim>\<open>==\<close> depends on which objects are the same: there
  every object carries its address. Coordinates are exact rationals; rounding of floating point
  numbers is outside the model.
\<close>

subsection \<open>Errors and values\<close>

text \<open>
  The exceptions the operations of the source can raise. The last two are named by the
  specification only: no operation of the source raises them.
\<close>

datatype error =
    AssertionError
  | ZeroDivisionError
  | ValueError
  | TypeError
  | IndexError
  | EmptyCollectionError
  | TypeMismatchError

type_synonym vec3 = "rat \<times> rat \<times> rat"

type_synonym face = "int \<times> int \<times> int \<times> int"

text \<open>A Python \<^verbatim>\<open>str\<close> is a sequence of code points.\<close>

type_synonym pystr = "nat list"

text \<open>
  A numpy array of three floats: either all components are finite, or some component is
  \<^verbatim>\<open>nan\<close> or \<^verbatim>\<open>inf\<close>. numpy divides an array by zero without raising (it warns and
  returns \<^verbatim>\<open>nan\<close> or \<^verbatim>\<open>inf\<close> components).
\<close>

datatype npvec = Finite vec3 | NonFinite

text \<open>
  Modelled from the spec: the leaf \<^verbatim>\<open>Mesh\<close> class is imported from
  \<^verbatim>\<open>capytaine.mesh.mesh\<close> and its code is not part of this file. A leaf is a terminal
  node holding the actual vertex and face arrays (one row of three coordinates per
  vertex, one row of four vertex indices per face) and exposing \<^verbatim>\<open>volume\<close>,
  \<^verbatim>\<open>center_of_mass_of_nodes\<close> and \<^verbatim>\<open>tree_view\<close>; its \<^verbatim>\<open>nb_vertices\<close> and
  \<^verbatim>\<open>nb_faces\<close> are the numbers of rows of its two arrays.
\<close>

record mesh =
  mesh_vertices :: "vec3 list"
  mesh_faces :: "face list"
  mesh_volume :: rat
  mesh_center_of_mass_of_nodes :: npvec
  mesh_tree_view :: pystr

text \<open>
  A child is a leaf mesh or a collection. A collection has its tuple \<^verbatim>\<open>_meshes\<close>, its
  optional \<^verbatim>\<open>name\<close> and, once it has been clipped, the attribute
  \<^verbatim>\<open>_clipping_data['faces_ids']\<close>.
\<close>

datatype node =
    Leaf mesh
  | Collection (meshes: "node list") (name: "pystr option") (clipping_data: "nat list option")

subsection \<open>Python and numpy helpers\<close>

text \<open>A list comprehension whose items may raise: the first exception wins.\<close>

fun collect :: "(error + 'a) list \<Rightarrow> error + 'a list" where
  "collect [] = Inr []"
| "collect (Inl e # rs) = Inl e"
| "collect (Inr x # rs) = (case collect rs of Inl e \<Rightarrow> Inl e | Inr xs \<Rightarrow> Inr (x # xs))"

text \<open>\<^verbatim>\<open>np.concatenate\<close> raises \<^verbatim>\<open>ValueError\<close> on an empty list of arrays.\<close>

fun np_concatenate :: "'a list list \<Rightarrow> error + 'a list" where
  "np_concatenate [] = Inl ValueError"
| "np_concatenate (xs # xss) = Inr (concat (xs # xss))"

text \<open>\<^verbatim>\<open>itertools.accumulate\<close>: the running sums, starting with the first element.\<close>

fun accumulate_from :: "nat \<Rightarrow> nat list \<Rightarrow> nat list" where
  "accumulate_from acc [] = []"
| "accumulate_from acc (x # xs) = (acc + x) # accumulate_from (acc + x) xs"

fun accumulate :: "nat list \<Rightarrow> nat list" where
  "accumulate [] = []"
| "accumulate (x # xs) = x # accumulate_from x xs"

text \<open>\<^verbatim>\<open>t[:k]\<close> and \<^verbatim>\<open>t[k]\<close> on a tuple; a negative \<^verbatim>\<open>k\<close> counts from the end.\<close>

definition py_slice_to :: "'a list \<Rightarrow> int \<Rightarrow> 'a list" where
  "py_slice_to xs k = (if k < 0 then take (nat (int (length xs) + k)) xs else take (nat k) xs)"

definition py_getitem :: "'a list \<Rightarrow> int \<Rightarrow> error + 'a" where
  "py_getitem xs k =
     (if 0 \<le> k \<and> k < int (length xs) then Inr (xs ! nat k)
      else if k < 0 \<and> - int (length xs) \<le> k then Inr (xs ! nat (int (length xs) + k))
      else Inl IndexError)"

text \<open>\<^verbatim>\<open>a[slice(start, stop)]\<close> on an array, for non-negative bounds.\<close>

definition np_slice :: "nat \<times> nat \<Rightarrow> 'a list \<Rightarrow> 'a list" where
  "np_slice s xs = drop (fst s) (take (snd s) xs)"

text \<open>\<^verbatim>\<open>faces + nbv\<close>: numpy adds the integer to every entry of the array.\<close>

fun add_offset :: "nat \<Rightarrow> face \<Rightarrow> face" where
  "add_offset nbv (a, b, c, d) = (a + int nbv, b + int nbv, c + int nbv, d + int nbv)"

subsection \<open>Properties\<close>

fun nb_submeshes :: "node \<Rightarrow> nat" where
  "nb_submeshes (Collection ms nm cd) = length ms"

fun nb_vertices :: "node \<Rightarrow> nat" where
  "nb_vertices (Leaf m) = length (mesh_vertices m)"
| "nb_vertices (Collection ms nm cd) = sum_list (map nb_vertices ms)"

fun nb_faces :: "node \<Rightarrow> nat" where
  "nb_faces (Leaf m) = length (mesh_faces m)"
| "nb_faces (Collection ms nm cd) = sum_list (map nb_faces ms)"

fun volume :: "node \<Rightarrow> rat" where
  "volume (Leaf m) = mesh_volume m"
| "volume (Collection ms nm cd) = sum_list (map volume ms)"

fun vertices :: "node \<Rightarrow> error + vec3 list" where
  "vertices (Leaf m) = Inr (mesh_vertices m)"
| "vertices (Collection ms nm cd) =
     (case collect (map vertices ms) of
        Inl e \<Rightarrow> Inl e
      | Inr vss \<Rightarrow> np_concatenate vss)"

fun faces :: "node \<Rightarrow> error + face list" where
  "faces (Leaf m) = Inr (mesh_faces m)"
| "faces (Collection ms nm cd) =
     (let nb_vs = accumulate (0 # map nb_vertices (butlast ms))
      in case collect (map2 (\<lambda>r nbv. map_sum id (map (add_offset nbv)) r)
                            (map faces ms) nb_vs) of
           Inl e \<Rightarrow> Inl e
         | Inr fss \<Rightarrow> np_concatenate fss)"

fun indices_of_mesh :: "node \<Rightarrow> int \<Rightarrow> error + (nat \<times> nat)" where
  "indices_of_mesh (Collection ms nm cd) mesh_index =
     (let start = sum_list (map nb_faces (py_slice_to ms mesh_index))
      in case py_getitem ms mesh_index of
           Inl e \<Rightarrow> Inl e
         | Inr m \<Rightarrow> Inr (start, start + nb_faces m))"

subsection \<open>Center of mass\<close>

text \<open>
  The values that occur while \<^verbatim>\<open>center_of_mass_of_nodes\<close> is evaluated: Python's
  \<^verbatim>\<open>sum\<close> starts from the integer \<^verbatim>\<open>0\<close>, so the sum of an empty list is an
  integer and not an array.
\<close>

datatype pyval = PyInt int | PyFloat rat | PyArr npvec

fun np_add :: "npvec \<Rightarrow> npvec \<Rightarrow> npvec" where
  "np_add (Finite (a, b, c)) (Finite (x, y, z)) = Finite (a + x, b + y, c + z)"
| "np_add u v = NonFinite"

fun np_add_scalar :: "rat \<Rightarrow> npvec \<Rightarrow> npvec" where
  "np_add_scalar s (Finite (x, y, z)) = Finite (s + x, s + y, s + z)"
| "np_add_scalar s NonFinite = NonFinite"

fun np_scale :: "rat \<Rightarrow> npvec \<Rightarrow> npvec" where
  "np_scale s (Finite (x, y, z)) = Finite (s * x, s * y, s * z)"
| "np_scale s NonFinite = NonFinite"

text \<open>An array divided by zero has no finite component left.\<close>

fun np_div :: "npvec \<Rightarrow> rat \<Rightarrow> npvec" where
  "np_div (Finite (x, y, z)) d = (if d = 0 then NonFinite else Finite (x / d, y / d, z / d))"
| "np_div NonFinite d = NonFinite"

fun py_mul :: "nat \<Rightarrow> pyval \<Rightarrow> pyval" where
  "py_mul n (PyInt a) = PyInt (int n * a)"
| "py_mul n (PyFloat a) = PyFloat (of_nat n * a)"
| "py_mul n (PyArr v) = PyArr (np_scale (of_nat n) v)"

fun py_add :: "pyval \<Rightarrow> pyval \<Rightarrow> pyval" where
  "py_add (PyInt a) (PyInt b) = PyInt (a + b)"
| "py_add (PyInt a) (PyFloat b) = PyFloat (of_int a + b)"
| "py_add (PyFloat a) (PyInt b) = PyFloat (a + of_int b)"
| "py_add (PyFloat a) (PyFloat b) = PyFloat (a + b)"
| "py_add (PyInt a) (PyArr v) = PyArr (np_add_scalar (of_int a) v)"
| "py_add (PyFloat a) (PyArr v) = PyArr (np_add_scalar a v)"
| "py_add (PyArr u) (PyInt b) = PyArr (np_add_scalar (of_int b) u)"
| "py_add (PyArr u) (PyFloat b) = PyArr (np_add_scalar b u)"
| "py_add (PyArr u) (PyArr v) = PyArr (np_add u v)"

definition py_sum :: "pyval list \<Rightarrow> pyval" where
  "py_sum xs = foldl py_add (PyInt 0) xs"

text \<open>
  True division by an integer: Python raises \<^verbatim>\<open>ZeroDivisionError\<close> when both
  operands are Python numbers, numpy does not raise.
\<close>

fun py_truediv :: "pyval \<Rightarrow> nat \<Rightarrow> error + pyval" where
  "py_truediv (PyInt a) n =
     (if n = 0 then Inl ZeroDivisionError else Inr (PyFloat (of_int a / of_nat n)))"
| "py_truediv (PyFloat a) n =
     (if n = 0 then Inl ZeroDivisionError else Inr (PyFloat (a / of_nat n)))"
| "py_truediv (PyArr v) n = Inr (PyArr (np_div v (of_nat n)))"

fun center_of_mass_of_nodes :: "node \<Rightarrow> error + pyval" where
  "center_of_mass_of_nodes (Leaf m) = Inr (PyArr (mesh_center_of_mass_of_nodes m))"
| "center_of_mass_of_nodes (Collection ms nm cd) =
     (case collect (map (\<lambda>m. map_sum id (py_mul (nb_vertices m)) (center_of_mass_of_nodes m)) ms) of
        Inl e \<Rightarrow> Inl e
      | Inr ws \<Rightarrow> py_truediv (py_sum ws) (nb_vertices (Collection ms nm cd)))"

subsection \<open>Construction and equality\<close>

text \<open>
  What the caller passes to the constructor: a mesh, a collection, or any other Python
  object. The \<^verbatim>\<open>assert\<close> statements are active (the interpreter's default mode;
  \<^verbatim>\<open>python -O\<close> removes them).
\<close>

datatype pyobj = Node node | Other

fun check_meshes :: "pyobj list \<Rightarrow> error + node list" where
  "check_meshes [] = Inr []"
| "check_meshes (Node n # objs) =
     (case check_meshes objs of Inl e \<Rightarrow> Inl e | Inr ms \<Rightarrow> Inr (n # ms))"
| "check_meshes (Other # objs) = Inl AssertionError"

definition init :: "pyobj list \<Rightarrow> pystr option \<Rightarrow> error + node" where
  "init objs nm =
     (case check_meshes objs of Inl e \<Rightarrow> Inl e | Inr ms \<Rightarrow> Inr (Collection ms nm None))"

text \<open>
  The comparison of two tuples takes two children for equal when they are the same
  object, without calling \<^verbatim>\<open>==\<close> on them. For \<^verbatim>\<open>==\<close> a mesh or a collection
  is therefore an object with an address; two objects are the same exactly when their
  addresses are equal.
\<close>

datatype obj =
    MeshObj (address: nat) mesh
  | CollectionObj (address: nat) "obj list" "pystr option" "nat list option"

text \<open>
  \<^verbatim>\<open>x == y\<close> on two children (\<open>node_eq\<close>) and \<^verbatim>\<open>self._meshes == other._meshes\<close> on
  two tuples (\<open>tuple_eq\<close>): the tuples are equal when they have the same length and at
  every position the two elements are the same object or \<^verbatim>\<open>==\<close> holds of them. On
  two collections \<^verbatim>\<open>==\<close> is \<^verbatim>\<open>__eq__\<close> below. The parameter \<open>meq\<close> is the outcome of
  \<^verbatim>\<open>Mesh.__eq__\<close> (external) for a leaf against another object; Python also consults
  it when the collection on the left has answered \<^verbatim>\<open>NotImplemented\<close>.
\<close>

fun node_eq :: "(mesh \<Rightarrow> obj \<Rightarrow> bool) \<Rightarrow> obj \<Rightarrow> obj \<Rightarrow> bool"
  and tuple_eq :: "(mesh \<Rightarrow> obj \<Rightarrow> bool) \<Rightarrow> obj list \<Rightarrow> obj list \<Rightarrow> bool" where
  "node_eq meq (MeshObj a m) y = meq m y"
| "node_eq meq (CollectionObj a ms nm cd) (MeshObj b m) = meq m (CollectionObj a ms nm cd)"
| "node_eq meq (CollectionObj a ms nm cd) (CollectionObj b ms' nm' cd') = tuple_eq meq ms ms'"
| "tuple_eq meq [] [] = True"
| "tuple_eq meq (x # xs) (y # ys) =
     ((address x = address y \<or> node_eq meq x y) \<and> tuple_eq meq xs ys)"
| "tuple_eq meq [] (y # ys) = False"
| "tuple_eq meq (x # xs) [] = False"

text \<open>
  \<^verbatim>\<open>__eq__\<close>. The right operand is a mesh or a collection, or any other Python object;
  the result \<open>None\<close> is Python's \<^verbatim>\<open>NotImplemented\<close>.
\<close>

datatype operand = Object obj | Foreign

fun eq :: "(mesh \<Rightarrow> obj \<Rightarrow> bool) \<Rightarrow> obj \<Rightarrow> operand \<Rightarrow> bool option" where
  "eq meq (CollectionObj a ms nm cd) (Object (CollectionObj b ms' nm' cd')) =
     Some (tuple_eq meq ms ms')"
| "eq meq (CollectionObj a ms nm cd) other = None"

subsection \<open>Tree rendering\<close>

definition newline :: pystr where
  "newline = [10]"

text \<open>The four strings of \<^verbatim>\<open>tree_view\<close>, by code point.\<close>

definition corner_prefix :: pystr where
  "corner_prefix = [32, 9492, 9472]"

definition corner_shift :: pystr where
  "corner_shift = [32, 32, 32]"

definition branch_prefix :: pystr where
  "branch_prefix = [32, 9500, 9472]"

definition branch_shift :: pystr where
  "branch_shift = [32, 9474, 32]"

text \<open>\<^verbatim>\<open>s.replace(old, new)\<close> for a pattern \<^verbatim>\<open>old\<close> of one character.\<close>

fun str_replace :: "nat \<Rightarrow> pystr \<Rightarrow> pystr \<Rightarrow> pystr" where
  "str_replace old new [] = []"
| "str_replace old new (c # s) =
     (if c = old then new @ str_replace old new s else c # str_replace old new s)"

fun str_join :: "pystr \<Rightarrow> pystr list \<Rightarrow> pystr" where
  "str_join sep [] = []"
| "str_join sep [s] = s"
| "str_join sep (s # t # ss) = s @ sep @ str_join sep (t # ss)"

text \<open>\<^verbatim>\<open>self.name + '\n' + body\<close> fails on a name that is \<^verbatim>\<open>None\<close>.\<close>

fun str_add_name :: "pystr option \<Rightarrow> pystr \<Rightarrow> error + pystr" where
  "str_add_name None body = Inl TypeError"
| "str_add_name (Some nm) body = Inr (nm @ newline @ body)"

definition body_tree_view :: "nat \<Rightarrow> nat \<Rightarrow> pystr \<Rightarrow> pystr" where
  "body_tree_view len i tv =
     (if int i = int len - 1
      then corner_prefix @ str_replace 10 (newline @ corner_shift) tv
      else branch_prefix @ str_replace 10 (newline @ branch_shift) tv)"

fun tree_view :: "node \<Rightarrow> error + pystr" where
  "tree_view (Leaf m) = Inr (mesh_tree_view m)"
| "tree_view (Collection ms nm cd) =
     (case collect (map2 (\<lambda>i r. map_sum id (body_tree_view (length ms) i) r)
                         [0..<length ms] (map tree_view ms)) of
        Inl e \<Rightarrow> Inl e
      | Inr body_tree_views \<Rightarrow> str_add_name nm (str_join newline body_tree_views))"

subsection \<open>Transformations\<close>

text \<open>
  Modelled from the spec: the decorator \<^verbatim>\<open>inplace_transformation\<close> is imported from
  \<^verbatim>\<open>capytaine.tools.geometry\<close> and its code is not part of this file. Every
  transformation has an in-place form, the default, which runs the body of the method
  on the object itself, and a form that runs it on a deep copy. Both leave the same
  value behind: the one the functions below return.
\<close>

fun prune_empty_meshes :: "node \<Rightarrow> node" where
  "prune_empty_meshes (Collection ms nm cd) =
     Collection (filter (\<lambda>mesh. nb_faces mesh > 0 \<and> nb_vertices mesh > 0) ms) nm cd"

text \<open>
  \<^verbatim>\<open>Mesh.clip\<close> is external: the parameter \<open>mesh_clip\<close> gives, for a plane and a leaf,
  the clipped leaf and the list that the leaf stores in
  \<^verbatim>\<open>_clipping_data['faces_ids']\<close>. \<open>clip\<close> returns the node as the call has left it
  and the list of face ids it has recorded.
\<close>

fun clip :: "('p \<Rightarrow> mesh \<Rightarrow> mesh \<times> nat list) \<Rightarrow> 'p \<Rightarrow> node \<Rightarrow> node \<times> nat list" where
  "clip mesh_clip plane (Leaf m) = (case mesh_clip plane m of (m', ids) \<Rightarrow> (Leaf m', ids))"
| "clip mesh_clip plane (Collection ms nm cd) =
     (let faces_shifts = accumulate (0 # map nb_faces (butlast ms));
          clipped = map (clip mesh_clip plane) ms;
          faces_ids = concat (map2 (\<lambda>c faces_shift. map (\<lambda>i. i + faces_shift) (snd c))
                                   clipped faces_shifts)
      in (prune_empty_meshes (Collection (map fst clipped) nm (Some faces_ids)), faces_ids))"

text \<open>\<^verbatim>\<open>Mesh.keep_immersed_part\<close> is external: the parameter \<open>mesh_keep\<close>.\<close>

fun keep_immersed_part :: "(mesh \<Rightarrow> mesh) \<Rightarrow> node \<Rightarrow> node" where
  "keep_immersed_part mesh_keep (Leaf m) = Leaf (mesh_keep m)"
| "keep_immersed_part mesh_keep (Collection ms nm cd) =
     prune_empty_meshes (Collection (map (keep_immersed_part mesh_keep) ms) nm cd)"

subsection \<open>Notions used by the properties\<close>

text \<open>A tree in which no collection, at any depth, is empty.\<close>

fun nonempty_tree :: "node \<Rightarrow> bool" where
  "nonempty_tree (Leaf m) = True"
| "nonempty_tree (Collection ms nm cd) = (ms \<noteq> [] \<and> list_all nonempty_tree ms)"

text \<open>
  The average of the vectors \<open>c\<close> weighted by the counts \<open>n\<close>: the sum of the
  \<open>n * c\<close> divided by the sum of the \<open>n\<close>.
\<close>

definition weighted_average :: "(nat \<times> npvec) list \<Rightarrow> npvec" where
  "weighted_average xs =
     np_div (foldr np_add (map (\<lambda>(n, c). np_scale (of_nat n) c) xs) (Finite (0, 0, 0)))
            (of_nat (sum_list (map fst xs)))"

text \<open>The lines of a string, as \<^verbatim>\<open>s.split('\n')\<close> gives them.\<close>

fun split_lines :: "pystr \<Rightarrow> pystr list" where
  "split_lines [] = [[]]"
| "split_lines (c # s) =
     (if c = 10 then [] # split_lines s
      else (case split_lines s of [] \<Rightarrow> [[c]] | l # ls \<Rightarrow> (c # l) # ls))"

text \<open>
  A child drawn in a tree: the glyph before its first line, the bar before each of its
  other lines.
\<close>

definition rendered_child :: "pystr \<Rightarrow> pystr \<Rightarrow> pystr \<Rightarrow> pystr list" where
  "rendered_child glyph bar tv =
     (glyph @ hd (split_lines tv)) # map ((@) bar) (tl (split_lines tv))"

text \<open>Two leaves to run the operations on: a square and a square made of two triangles.\<close>

definition mesh_A :: mesh where
  "mesh_A = \<lparr>mesh_vertices = [(0, 0, 0), (1, 0, 0), (1, 1, 0), (0, 1, 0)],
             mesh_faces = [(0, 1, 2, 3)],
             mesh_volume = 0,
             mesh_center_of_mass_of_nodes = Finite (1 / 2, 1 / 2, 0),
             mesh_tree_view = [65]\<rparr>"

definition mesh_B :: mesh where
  "mesh_B = \<lparr>mesh_vertices = [(0, 0, 1), (1, 0, 1), (1, 1, 1), (0, 1, 1)],
             mesh_faces = [(0, 1, 2, 2), (0, 2, 3, 3)],
             mesh_volume = 0,
             mesh_center_of_mass_of_nodes = Finite (1 / 2, 1 / 2, 1),
             mesh_tree_view = [66]\<rparr>"

text \<open>
  Stand-ins for the external operations of a leaf, to run the transformations on: a
  clipper that keeps the first \<open>k\<close> faces of a leaf, an immersion that drops the first
  face, and an equality of leaves that compares the two arrays.
\<close>

definition keep_first :: "nat \<Rightarrow> mesh \<Rightarrow> mesh \<times> nat list" where
  "keep_first k m =
     (m\<lparr>mesh_faces := take k (mesh_faces m)\<rparr>, [0..<min k (length (mesh_faces m))])"

definition drop_first :: "mesh \<Rightarrow> mesh" where
  "drop_first m = m\<lparr>mesh_faces := tl (mesh_faces m)\<rparr>"

definition same_arrays :: "mesh \<Rightarrow> obj \<Rightarrow> bool" where
  "same_arrays a y =
     (case y of
        MeshObj j b \<Rightarrow> mesh_vertices a = mesh_vertices b \<and> mesh_faces a = mesh_faces b
      | CollectionObj j ms nm cd \<Rightarrow> False)"

section \<open>Verified properties\<close>

subsection \<open>Lists of results, running sums\<close>

lemma collect_map_Inr: "collect (map Inr xs) = Inr xs"
  by (induction xs) auto

lemma collect_Inr_D: "collect rs = Inr xs \<Longrightarrow> rs = map Inr xs"
proof (induction rs arbitrary: xs)
  case Nil
  then show ?case by auto
next
  case (Cons r rs)
  show ?case
  proof (cases r)
    case (Inl e)
    with Cons.prems show ?thesis by simp
  next
    case (Inr x)
    with Cons.prems obtain ys where "collect rs = Inr ys" and "xs = x # ys"
      by (auto split: sum.splits)
    with Cons.IH Inr show ?thesis by simp
  qed
qed

lemma collect_Inr_iff: "collect rs = Inr xs \<longleftrightarrow> rs = map Inr xs"
  using collect_Inr_D collect_map_Inr by blast

lemma accumulate_from_length: "length (accumulate_from a xs) = length xs"
  by (induction xs arbitrary: a) auto

lemma accumulate_from_nth:
  "i < length xs \<Longrightarrow> accumulate_from a xs ! i = a + sum_list (take (Suc i) xs)"
proof (induction xs arbitrary: a i)
  case Nil
  then show ?case by simp
next
  case (Cons x xs)
  then show ?case by (cases i) (auto simp: add.assoc)
qed

lemma accumulate_prefix_length:
  "ms \<noteq> [] \<Longrightarrow> length (accumulate (0 # map f (butlast ms))) = length ms"
  by (simp add: accumulate_from_length)

lemma accumulate_prefix_nth:
  assumes "i < length ms"
  shows "accumulate (0 # map f (butlast ms)) ! i = sum_list (map f (take i ms))"
proof (cases i)
  case 0
  then show ?thesis by simp
next
  case (Suc j)
  with assms have j: "j < length (butlast ms)" by simp
  have "take (Suc j) (map f (butlast ms)) = map f (take (Suc j) ms)"
    using j by (simp add: take_map take_butlast)
  with Suc j show ?thesis
    by (simp add: accumulate_from_nth del: take_Suc_Cons)
qed

subsection \<open>Counts and concatenated arrays\<close>

lemma vertices_length: "vertices n = Inr vs \<Longrightarrow> length vs = nb_vertices n"
proof (induction n arbitrary: vs)
  case (Leaf m)
  then show ?case by auto
next
  case (Collection ms nm cd)
  from Collection.prems obtain vss where c: "collect (map vertices ms) = Inr vss"
    and v: "np_concatenate vss = Inr vs"
    by (auto split: sum.splits)
  from c have m: "map vertices ms = map Inr vss" by (simp add: collect_Inr_iff)
  then have len: "length vss = length ms" by (metis length_map)
  have "map length vss = map nb_vertices ms"
  proof (rule nth_equalityI)
    show "length (map length vss) = length (map nb_vertices ms)" using len by simp
  next
    fix i assume "i < length (map length vss)"
    then have i: "i < length ms" using len by simp
    then have "vertices (ms ! i) = Inr (vss ! i)"
      using m len by (metis nth_map)
    with Collection.IH i have "length (vss ! i) = nb_vertices (ms ! i)"
      by (metis nth_mem)
    then show "map length vss ! i = map nb_vertices ms ! i" using i len by simp
  qed
  moreover from v have "vs = concat vss" by (cases vss) auto
  ultimately show ?case by (simp add: length_concat)
qed

lemma vertices_leaves:
  assumes "ms \<noteq> []" and "list_all is_Leaf ms"
  shows "vertices (Collection ms nm cd) = Inr (concat (map (\<lambda>m. mesh_vertices (un_Leaf m)) ms))"
proof -
  have "map vertices ms = map Inr (map (\<lambda>m. mesh_vertices (un_Leaf m)) ms)"
    using assms(2) by (induction ms) (auto simp: is_Leaf_def)
  then have "collect (map vertices ms) = Inr (map (\<lambda>m. mesh_vertices (un_Leaf m)) ms)"
    by (simp only: collect_map_Inr)
  with assms(1) show ?thesis by (cases ms) auto
qed

text \<open>
  C3. For a non-empty collection of leaves, \<open>nb_faces\<close> is the sum of the children's
  \<open>nb_faces\<close>, and \<open>vertices\<close> returns the concatenation of the children's vertex
  arrays, whose length is the sum of the children's \<open>nb_vertices\<close>.
\<close>

theorem nb_faces_and_vertices_of_leaves:
  assumes "ms \<noteq> []" and "list_all is_Leaf ms"
  shows "nb_faces (Collection ms nm cd) = sum_list (map nb_faces ms) \<and>
         (\<exists>vs. vertices (Collection ms nm cd) = Inr vs \<and>
               vs = concat (map (\<lambda>m. mesh_vertices (un_Leaf m)) ms) \<and>
               length vs = sum_list (map nb_vertices ms))"
  using vertices_leaves [OF assms] vertices_length [of "Collection ms nm cd"] by simp

theorem nb_faces_and_vertices_of_leaves_witness:
  "[Leaf mesh_A, Leaf mesh_B] \<noteq> [] \<and> list_all is_Leaf [Leaf mesh_A, Leaf mesh_B] \<and>
   nb_faces (Collection [Leaf mesh_A, Leaf mesh_B] None None) = 3 \<and>
   (\<exists>vs. vertices (Collection [Leaf mesh_A, Leaf mesh_B] None None) = Inr vs \<and> length vs = 8)"
  using nb_faces_and_vertices_of_leaves [of "[Leaf mesh_A, Leaf mesh_B]" None None]
  by (simp add: mesh_A_def mesh_B_def)

subsection \<open>Face ranges of the children\<close>

lemma np_concatenate_Inr: "np_concatenate xss = Inr xs \<Longrightarrow> xss \<noteq> [] \<and> xs = concat xss"
  by (cases xss) auto

lemma concat_slice:
  assumes "i < length xss"
  shows "np_slice (sum_list (map length (take i xss)),
                   sum_list (map length (take i xss)) + length (xss ! i)) (concat xss) = xss ! i"
proof -
  have "xss = take i xss @ (xss ! i) # drop (Suc i) xss"
    using assms by (rule id_take_nth_drop)
  then have "concat xss = concat (take i xss) @ (xss ! i) @ concat (drop (Suc i) xss)"
    by (metis concat.simps(2) concat_append)
  moreover have "length (concat (take i xss)) = sum_list (map length (take i xss))"
    by (simp add: length_concat)
  ultimately show ?thesis by (simp add: np_slice_def)
qed

lemma faces_children:
  assumes "faces (Collection ms nm cd) = Inr fs"
  shows "ms \<noteq> [] \<and> (\<exists>fss. map faces ms = map Inr fss \<and>
           fs = concat (map2 (\<lambda>f nbv. map (add_offset nbv) f) fss
                             (accumulate (0 # map nb_vertices (butlast ms)))))"
proof -
  let ?nbvs = "accumulate (0 # map nb_vertices (butlast ms))"
  let ?g = "\<lambda>r nbv. map_sum id (map (add_offset nbv)) r"
  from assms obtain gss where c: "collect (map2 ?g (map faces ms) ?nbvs) = Inr gss"
    and n: "np_concatenate gss = Inr fs"
    by (auto simp: Let_def split: sum.splits)
  from n have gss: "gss \<noteq> []" and fs: "fs = concat gss"
    by (auto dest: np_concatenate_Inr)
  from c have m: "map2 ?g (map faces ms) ?nbvs = map Inr gss"
    by (rule collect_Inr_D)
  have ne: "ms \<noteq> []"
  proof
    assume "ms = []"
    with m gss show False by simp
  qed
  then have len: "length ?nbvs = length ms" by (rule accumulate_prefix_length)
  have lg: "length gss = length ms"
    using arg_cong [OF m, of length] len by simp
  have each: "\<exists>f. faces (ms ! i) = Inr f \<and> gss ! i = map (add_offset (?nbvs ! i)) f"
    if i: "i < length ms" for i
  proof -
    have "map2 ?g (map faces ms) ?nbvs ! i = ?g (faces (ms ! i)) (?nbvs ! i)"
      using i len by simp
    with m have "?g (faces (ms ! i)) (?nbvs ! i) = Inr (gss ! i)"
      using i lg by simp
    then show ?thesis by (cases "faces (ms ! i)") auto
  qed
  define fss where "fss = map (\<lambda>m. projr (faces m)) ms"
  have a: "map faces ms = map Inr fss"
    unfolding fss_def
  proof (rule nth_equalityI)
    show "length (map faces ms) = length (map Inr (map (\<lambda>m. projr (faces m)) ms))" by simp
  next
    fix i assume "i < length (map faces ms)"
    then have "i < length ms" by simp
    with each [of i] show "map faces ms ! i = map Inr (map (\<lambda>m. projr (faces m)) ms) ! i"
      by auto
  qed
  have b: "gss = map2 (\<lambda>f nbv. map (add_offset nbv) f) fss ?nbvs"
  proof (rule nth_equalityI)
    show "length gss = length (map2 (\<lambda>f nbv. map (add_offset nbv) f) fss ?nbvs)"
      using lg len by (simp add: fss_def)
  next
    fix i assume "i < length gss"
    then have i: "i < length ms" using lg by simp
    with each [of i] show "gss ! i = map2 (\<lambda>f nbv. map (add_offset nbv) f) fss ?nbvs ! i"
      using len by (auto simp: fss_def)
  qed
  from ne a b fs show ?thesis by blast
qed

lemma faces_length: "faces n = Inr fs \<Longrightarrow> length fs = nb_faces n"
proof (induction n arbitrary: fs)
  case (Leaf m)
  then show ?case by auto
next
  case (Collection ms nm cd)
  let ?nbvs = "accumulate (0 # map nb_vertices (butlast ms))"
  from faces_children [OF Collection.prems] obtain fss where
    ne: "ms \<noteq> []" and m: "map faces ms = map Inr fss"
    and fs: "fs = concat (map2 (\<lambda>f nbv. map (add_offset nbv) f) fss ?nbvs)"
    by blast
  have len: "length fss = length ms"
    using arg_cong [OF m, of length] by simp
  have lnb: "length ?nbvs = length ms" using ne by (rule accumulate_prefix_length)
  have "map length (map2 (\<lambda>f nbv. map (add_offset nbv) f) fss ?nbvs) = map nb_faces ms"
  proof (rule nth_equalityI)
    show "length (map length (map2 (\<lambda>f nbv. map (add_offset nbv) f) fss ?nbvs)) =
          length (map nb_faces ms)"
      using len lnb by simp
  next
    fix i assume "i < length (map length (map2 (\<lambda>f nbv. map (add_offset nbv) f) fss ?nbvs))"
    then have i: "i < length ms" using len lnb by simp
    have "map faces ms ! i = map Inr fss ! i" using m by simp
    then have "faces (ms ! i) = Inr (fss ! i)" using i len by simp
    moreover have "ms ! i \<in> set ms" using i by simp
    ultimately have "length (fss ! i) = nb_faces (ms ! i)" by (rule Collection.IH [rotated])
    then show "map length (map2 (\<lambda>f nbv. map (add_offset nbv) f) fss ?nbvs) ! i =
               map nb_faces ms ! i"
      using i len lnb by simp
  qed
  with fs show ?case by (simp add: length_concat)
qed

lemma faces_defined: "nonempty_tree n \<Longrightarrow> \<exists>fs. faces n = Inr fs"
proof (induction n)
  case (Leaf m)
  then show ?case by simp
next
  case (Collection ms nm cd)
  let ?nbvs = "accumulate (0 # map nb_vertices (butlast ms))"
  let ?g = "\<lambda>r nbv. map_sum id (map (add_offset nbv)) r"
  from Collection.prems have ne: "ms \<noteq> []" and all: "list_all nonempty_tree ms" by auto
  have lnb: "length ?nbvs = length ms" using ne by (rule accumulate_prefix_length)
  define gss where "gss = map2 (\<lambda>m nbv. map (add_offset nbv) (projr (faces m))) ms ?nbvs"
  have "map2 ?g (map faces ms) ?nbvs = map Inr gss"
  proof (rule nth_equalityI)
    show "length (map2 ?g (map faces ms) ?nbvs) = length (map Inr gss)"
      by (simp add: gss_def)
  next
    fix i assume "i < length (map2 ?g (map faces ms) ?nbvs)"
    then have i: "i < length ms" by simp
    then have "ms ! i \<in> set ms" by simp
    moreover from this all have "nonempty_tree (ms ! i)" by (simp add: list_all_iff)
    ultimately obtain f where "faces (ms ! i) = Inr f" using Collection.IH by blast
    then show "map2 ?g (map faces ms) ?nbvs ! i = map Inr gss ! i"
      using i lnb by (simp add: gss_def)
  qed
  then have "collect (map2 ?g (map faces ms) ?nbvs) = Inr gss"
    by (simp only: collect_map_Inr)
  moreover have "gss \<noteq> []" using ne lnb by (auto simp: gss_def)
  ultimately show ?case by (cases gss) (auto simp: Let_def)
qed

lemma py_slice_to_valid:
  assumes "i < length ms" and "k = int i \<or> k = int i - int (length ms)"
  shows "py_slice_to ms k = take i ms"
  using assms by (auto simp: py_slice_to_def)

lemma py_getitem_valid:
  assumes "i < length ms" and "k = int i \<or> k = int i - int (length ms)"
  shows "py_getitem ms k = Inr (ms ! i)"
  using assms by (auto simp: py_getitem_def)

lemma faces_child_slice:
  assumes i: "i < length ms" and f: "faces (Collection ms nm cd) = Inr fs"
  shows "\<exists>fi. faces (ms ! i) = Inr fi \<and>
              np_slice (sum_list (map nb_faces (take i ms)),
                        sum_list (map nb_faces (take i ms)) + nb_faces (ms ! i)) fs =
                map (add_offset (sum_list (map nb_vertices (take i ms)))) fi"
proof -
  let ?nbvs = "accumulate (0 # map nb_vertices (butlast ms))"
  define start where "start = sum_list (map nb_faces (take i ms))"
  from faces_children [OF f] obtain fss where
    ne: "ms \<noteq> []" and m: "map faces ms = map Inr fss"
    and fs: "fs = concat (map2 (\<lambda>f nbv. map (add_offset nbv) f) fss ?nbvs)"
    by blast
  let ?gss = "map2 (\<lambda>f nbv. map (add_offset nbv) f) fss ?nbvs"
  have len: "length fss = length ms"
    using arg_cong [OF m, of length] by simp
  have lnb: "length ?nbvs = length ms" using ne by (rule accumulate_prefix_length)
  have child: "faces (ms ! j) = Inr (fss ! j)" if "j < length ms" for j
  proof -
    have "map faces ms ! j = map Inr fss ! j" using m by simp
    then show ?thesis using that len by simp
  qed
  have lens: "map length ?gss = map nb_faces ms"
  proof (rule nth_equalityI)
    show "length (map length ?gss) = length (map nb_faces ms)" using len lnb by simp
  next
    fix j assume "j < length (map length ?gss)"
    then have j: "j < length ms" using len lnb by simp
    from faces_length [OF child [OF j]] show "map length ?gss ! j = map nb_faces ms ! j"
      using j len lnb by simp
  qed
  have ig: "i < length ?gss" using i len lnb by simp
  have "take i (map length ?gss) = take i (map nb_faces ms)" using lens by simp
  then have st: "sum_list (map length (take i ?gss)) = start"
    unfolding start_def by (simp add: take_map)
  have "map length ?gss ! i = map nb_faces ms ! i" using lens by simp
  then have li: "length (?gss ! i) = nb_faces (ms ! i)"
    using i ig by simp
  have "?gss ! i = map (add_offset (?nbvs ! i)) (fss ! i)"
    using i len lnb by simp
  also have "?nbvs ! i = sum_list (map nb_vertices (take i ms))"
    using i by (rule accumulate_prefix_nth)
  finally have gi:
    "?gss ! i = map (add_offset (sum_list (map nb_vertices (take i ms)))) (fss ! i)" .
  from concat_slice [OF ig] have "np_slice (start, start + nb_faces (ms ! i)) fs = ?gss ! i"
    unfolding st li fs .
  with gi child [OF i] show ?thesis unfolding start_def by simp
qed

text \<open>
  C4. For a child index \<open>i\<close> of a collection, written \<open>i\<close> or, counting from the end,
  \<open>i - len\<close>, \<open>indices_of_mesh\<close> returns the half-open range that starts at the sum of
  the face counts of the children before \<open>i\<close> and has the length of child \<open>i\<close>'s face
  count. Whenever the collection has a \<open>faces\<close> array, child \<open>i\<close> has one too, and the
  collection's array sliced by that range is the child's array with every vertex index
  shifted by the sum of the vertex counts of the children before \<open>i\<close>. The \<open>faces\<close>
  array exists for every tree without an empty collection.
\<close>

theorem indices_of_mesh_slices_faces:
  assumes "i < length ms" and "k = int i \<or> k = int i - int (length ms)"
  shows "indices_of_mesh (Collection ms nm cd) k =
           Inr (sum_list (map nb_faces (take i ms)),
                sum_list (map nb_faces (take i ms)) + nb_faces (ms ! i)) \<and>
         (\<forall>fs. faces (Collection ms nm cd) = Inr fs \<longrightarrow>
            (\<exists>fi. faces (ms ! i) = Inr fi \<and>
                  np_slice (sum_list (map nb_faces (take i ms)),
                            sum_list (map nb_faces (take i ms)) + nb_faces (ms ! i)) fs =
                    map (add_offset (sum_list (map nb_vertices (take i ms)))) fi)) \<and>
         (nonempty_tree (Collection ms nm cd) \<longrightarrow> (\<exists>fs. faces (Collection ms nm cd) = Inr fs))"
proof -
  have "indices_of_mesh (Collection ms nm cd) k =
          Inr (sum_list (map nb_faces (take i ms)),
               sum_list (map nb_faces (take i ms)) + nb_faces (ms ! i))"
    by (simp add: py_slice_to_valid [OF assms] py_getitem_valid [OF assms] Let_def)
  moreover have "nonempty_tree (Collection ms nm cd) \<longrightarrow>
                 (\<exists>fs. faces (Collection ms nm cd) = Inr fs)"
    using faces_defined by blast
  ultimately show ?thesis
    using faces_child_slice [OF assms(1)] by blast
qed

theorem indices_of_mesh_slices_faces_witness:
  "(1::nat) < length [Leaf mesh_A, Leaf mesh_B] \<and>
   (- 1 :: int) = int 1 - int (length [Leaf mesh_A, Leaf mesh_B]) \<and>
   indices_of_mesh (Collection [Leaf mesh_A, Leaf mesh_B] None None) (- 1) = Inr (1, 3) \<and>
   nonempty_tree (Collection [Leaf mesh_A, Leaf mesh_B] None None) \<and>
   faces (Collection [Leaf mesh_A, Leaf mesh_B] None None)
     = Inr [(0, 1, 2, 3), (4, 5, 6, 6), (4, 6, 7, 7)] \<and>
   np_slice (1, 3) [(0, 1, 2, 3), (4, 5, 6, 6), (4, 6, 7, 7)]
     = map (add_offset 4) (mesh_faces mesh_B)"
  using indices_of_mesh_slices_faces [of 1 "[Leaf mesh_A, Leaf mesh_B]" "- 1" None None]
  by (simp add: mesh_A_def mesh_B_def np_slice_def)

subsection \<open>Clipping and pruning\<close>

lemma map2_nth_upt:
  assumes "length ys = length xs"
  shows "map2 f xs ys = map (\<lambda>i. f (xs ! i) (ys ! i)) [0..<length xs]"
  using assms by (intro nth_equalityI) auto

lemma sum_list_take_nth_le:
  assumes "i < length ms"
  shows "sum_list (map f (take i ms)) + f (ms ! i) \<le> sum_list (map (f :: 'a \<Rightarrow> nat) ms)"
proof -
  have "ms = take i ms @ (ms ! i) # drop (Suc i) ms"
    using assms by (rule id_take_nth_drop)
  then have "sum_list (map f ms) =
             sum_list (map f (take i ms @ (ms ! i) # drop (Suc i) ms))" by simp
  then show ?thesis by simp
qed

lemma clip_Collection_ids:
  "snd (clip mesh_clip plane (Collection ms nm cd)) =
     concat (map (\<lambda>i. map (\<lambda>j. j + sum_list (map nb_faces (take i ms)))
                            (snd (clip mesh_clip plane (ms ! i)))) [0..<length ms])"
proof (cases "ms = []")
  case True
  then show ?thesis by simp
next
  case False
  let ?sh = "accumulate (0 # map nb_faces (butlast ms))"
  let ?cl = "map (clip mesh_clip plane) ms"
  have len: "length ?sh = length ?cl"
    using accumulate_prefix_length [OF False, of nb_faces] by simp
  have "map2 (\<lambda>c faces_shift. map (\<lambda>i. i + faces_shift) (snd c)) ?cl ?sh =
        map (\<lambda>i. map (\<lambda>j. j + ?sh ! i) (snd (?cl ! i))) [0..<length ?cl]"
    by (rule map2_nth_upt [OF len])
  also have "\<dots> = map (\<lambda>i. map (\<lambda>j. j + sum_list (map nb_faces (take i ms)))
                            (snd (clip mesh_clip plane (ms ! i)))) [0..<length ms]"
    by (rule nth_equalityI) (simp_all add: accumulate_prefix_nth del: accumulate.simps)
  finally show ?thesis by (simp add: Let_def)
qed

lemma clip_Collection_fst:
  "fst (clip mesh_clip plane (Collection ms nm cd)) =
     Collection (filter (\<lambda>mesh. nb_faces mesh > 0 \<and> nb_vertices mesh > 0)
                        (map (\<lambda>m. fst (clip mesh_clip plane m)) ms))
                nm (Some (snd (clip mesh_clip plane (Collection ms nm cd))))"
  by (simp add: Let_def comp_def)

lemma clip_ids_valid:
  assumes "\<And>m. list_all (\<lambda>j. j < length (mesh_faces m)) (snd (mesh_clip plane m))"
  shows "list_all (\<lambda>j. j < nb_faces n) (snd (clip mesh_clip plane n))"
proof (induction n)
  case (Leaf m)
  from assms [of m] show ?case by (cases "mesh_clip plane m") simp
next
  case (Collection ms nm cd)
  have "j + sum_list (map nb_faces (take i ms)) < sum_list (map nb_faces ms)"
    if i: "i < length ms" and j: "j \<in> set (snd (clip mesh_clip plane (ms ! i)))" for i j
  proof -
    have "ms ! i \<in> set ms" using i by simp
    then have "list_all (\<lambda>j. j < nb_faces (ms ! i)) (snd (clip mesh_clip plane (ms ! i)))"
      by (rule Collection.IH)
    with j have "j < nb_faces (ms ! i)" by (simp add: list_all_iff)
    with sum_list_take_nth_le [OF i, of nb_faces] show ?thesis by simp
  qed
  then show ?case
    unfolding clip_Collection_ids by (auto simp: list_all_iff)
qed

text \<open>
  C5. After \<open>clip\<close>, the list of face ids recorded by a collection is the
  concatenation, in child order, of the lists recorded by its children, each shifted
  by the sum of the face counts that the earlier children had before the clip; it is
  the list stored in the collection's clipping data. When the clipper of the leaves
  returns indices into the leaf's own face array as it was before the clip, every
  recorded id is an index into the collection's concatenated face array as it was
  before the clip.
\<close>

theorem clip_records_shifted_faces_ids:
  "snd (clip mesh_clip plane (Collection ms nm cd)) =
     concat (map (\<lambda>i. map (\<lambda>j. j + sum_list (map nb_faces (take i ms)))
                            (snd (clip mesh_clip plane (ms ! i)))) [0..<length ms]) \<and>
   clipping_data (fst (clip mesh_clip plane (Collection ms nm cd))) =
     Some (snd (clip mesh_clip plane (Collection ms nm cd))) \<and>
   ((\<forall>m. list_all (\<lambda>j. j < length (mesh_faces m)) (snd (mesh_clip plane m))) \<longrightarrow>
      list_all (\<lambda>j. j < nb_faces (Collection ms nm cd))
               (snd (clip mesh_clip plane (Collection ms nm cd))))"
  using clip_Collection_ids [of mesh_clip plane ms nm cd]
    clip_Collection_fst [of mesh_clip plane ms nm cd]
    clip_ids_valid [of mesh_clip plane "Collection ms nm cd"]
  by simp

lemma keep_first_valid: "list_all (\<lambda>j. j < length (mesh_faces m)) (snd (keep_first k m))"
  by (simp add: keep_first_def list_all_iff)

theorem clip_records_shifted_faces_ids_witness:
  "(\<forall>m. list_all (\<lambda>j. j < length (mesh_faces m)) (snd (keep_first 1 m))) \<and>
   snd (clip keep_first 1 (Collection [Leaf mesh_A, Leaf mesh_B] None None)) = [0, 1] \<and>
   list_all (\<lambda>j. j < nb_faces (Collection [Leaf mesh_A, Leaf mesh_B] None None))
            (snd (clip keep_first 1 (Collection [Leaf mesh_A, Leaf mesh_B] None None)))"
  using clip_records_shifted_faces_ids [of keep_first 1 "[Leaf mesh_A, Leaf mesh_B]" None None]
    keep_first_valid
  by (simp add: keep_first_def mesh_A_def mesh_B_def)

text \<open>
  C6. After \<open>clip\<close> and after \<open>keep_immersed_part\<close>, every child that remains in the
  collection has a positive face count and a positive vertex count; when the clip
  leaves every child without faces, the collection has no child left.
\<close>

theorem clip_and_keep_immersed_part_prune:
  "(\<exists>ms' ids. fst (clip mesh_clip plane (Collection ms nm cd)) = Collection ms' nm (Some ids) \<and>
      (\<forall>m\<in>set ms'. 0 < nb_faces m \<and> 0 < nb_vertices m) \<and>
      ((\<forall>m\<in>set ms. nb_faces (fst (clip mesh_clip plane m)) = 0) \<longrightarrow>
         nb_submeshes (Collection ms' nm (Some ids)) = 0)) \<and>
   (\<exists>ms'. keep_immersed_part mesh_keep (Collection ms nm cd) = Collection ms' nm cd \<and>
      (\<forall>m\<in>set ms'. 0 < nb_faces m \<and> 0 < nb_vertices m))"
proof -
  have "filter (\<lambda>mesh. nb_faces mesh > 0 \<and> nb_vertices mesh > 0)
               (map (\<lambda>m. fst (clip mesh_clip plane m)) ms) = []"
    if "\<forall>m\<in>set ms. nb_faces (fst (clip mesh_clip plane m)) = 0"
    using that by (simp add: filter_empty_conv)
  then show ?thesis
    unfolding clip_Collection_fst by simp
qed

theorem clip_and_keep_immersed_part_prune_witness:
  "list_all (\<lambda>m. nb_faces (fst (clip keep_first 0 m)) = 0) [Leaf mesh_A, Leaf mesh_B] \<and>
   fst (clip keep_first 0 (Collection [Leaf mesh_A, Leaf mesh_B] None None)) =
     Collection [] None (Some []) \<and>
   nb_submeshes (fst (clip keep_first 0 (Collection [Leaf mesh_A, Leaf mesh_B] None None))) = 0 \<and>
   keep_immersed_part drop_first (Collection [Leaf mesh_A, Leaf mesh_B] None None) =
     Collection [Leaf (mesh_B\<lparr>mesh_faces := [(0, 2, 3, 3)]\<rparr>)] None None"
  using clip_and_keep_immersed_part_prune
    [of keep_first 0 "[Leaf mesh_A, Leaf mesh_B]" None None drop_first]
  by (simp add: keep_first_def drop_first_def mesh_A_def mesh_B_def)

subsection \<open>Equality\<close>

lemma tuple_eq_iff:
  "tuple_eq meq xs ys \<longleftrightarrow>
     length xs = length ys \<and>
     (\<forall>i<length xs. address (xs ! i) = address (ys ! i) \<or> node_eq meq (xs ! i) (ys ! i))"
proof (induction xs arbitrary: ys)
  case Nil
  then show ?case by (cases ys) simp_all
next
  case (Cons x xs)
  show ?case
  proof (cases ys)
    case Nil
    then show ?thesis by simp
  next
    case (Cons y ys')
    then show ?thesis
      using Cons.IH [of ys'] by (auto simp: less_Suc_eq_0_disj)
  qed
qed

lemma reordered_differs:
  assumes "mset ms' = mset ms" and "ms' \<noteq> ms"
  shows "\<exists>i j. i < length ms \<and> j < length ms \<and> i \<noteq> j \<and> ms' ! i = ms ! j"
proof -
  from assms(1) have len: "length ms' = length ms" by (rule mset_eq_length)
  from assms(1) have set: "set ms' = set ms" by (rule mset_eq_setD)
  from assms(2) len obtain i where i: "i < length ms" and ne: "ms' ! i \<noteq> ms ! i"
    by (auto simp: list_eq_iff_nth_eq)
  from i len have "ms' ! i \<in> set ms'" by simp
  with set obtain j where j: "j < length ms" and eq: "ms ! j = ms' ! i"
    by (auto simp: in_set_conv_nth)
  from ne eq have "i \<noteq> j" by auto
  with i j eq [symmetric] show ?thesis by blast
qed

text \<open>
  C7, as specified: two collections compare equal exactly when their sequences of
  children are structurally equal in the same order, and two collections that hold the
  same children in a different order compare unequal. The second half fails: two
  collections that hold the same two empty collections in opposite orders compare
  equal, and so do two that hold the same two leaves with equal arrays in opposite
  orders (with a \<^verbatim>\<open>Mesh.__eq__\<close> that compares the arrays).
\<close>

theorem eq_reordered_counterexample:
  "mset [CollectionObj 2 [] (Some [66]) None, CollectionObj 1 [] (Some [65]) None] =
     mset [CollectionObj 1 [] (Some [65]) None, CollectionObj 2 [] (Some [66]) None] \<and>
   [CollectionObj 2 [] (Some [66]) None, CollectionObj 1 [] (Some [65]) None] \<noteq>
     [CollectionObj 1 [] (Some [65]) None, CollectionObj 2 [] (Some [66]) None] \<and>
   eq same_arrays
      (CollectionObj 0 [CollectionObj 1 [] (Some [65]) None, CollectionObj 2 [] (Some [66]) None]
         None None)
      (Object (CollectionObj 3
         [CollectionObj 2 [] (Some [66]) None, CollectionObj 1 [] (Some [65]) None] None None))
     = Some True \<and>
   eq same_arrays
      (CollectionObj 0 [MeshObj 1 mesh_A, MeshObj 2 mesh_A] None None)
      (Object (CollectionObj 3 [MeshObj 2 mesh_A, MeshObj 1 mesh_A] None None)) = Some True"
  by (simp add: same_arrays_def)

text \<open>
  C7, amended. Two collections compare equal exactly when their tuples of children
  have the same length and, at every position, the two children are the same object
  or compare equal with \<^verbatim>\<open>==\<close>; on two nested collections \<^verbatim>\<open>==\<close> is this same
  comparison of their children, and where a leaf takes part it is \<^verbatim>\<open>Mesh.__eq__\<close>.
  Names play no part. Two collections that hold the same children in a different
  order compare unequal when the children are pairwise different objects of which no
  two compare equal.
\<close>

theorem eq_iff_children_equal_in_order:
  "eq meq (CollectionObj a ms nm cd) (Object (CollectionObj b ms' nm' cd')) =
     Some (length ms = length ms' \<and>
           (\<forall>i<length ms. address (ms ! i) = address (ms' ! i) \<or>
                           node_eq meq (ms ! i) (ms' ! i))) \<and>
   node_eq meq (CollectionObj a ms nm cd) (CollectionObj b ms' nm' cd') =
     (length ms = length ms' \<and>
      (\<forall>i<length ms. address (ms ! i) = address (ms' ! i) \<or>
                      node_eq meq (ms ! i) (ms' ! i))) \<and>
   node_eq meq (MeshObj a m) y = meq m y \<and>
   node_eq meq (CollectionObj a ms nm cd) (MeshObj b m) = meq m (CollectionObj a ms nm cd) \<and>
   (mset ms' = mset ms \<and> ms' \<noteq> ms \<and>
    (\<forall>i<length ms. \<forall>j<length ms. i \<noteq> j \<longrightarrow>
       address (ms ! i) \<noteq> address (ms ! j) \<and> \<not> node_eq meq (ms ! i) (ms ! j)) \<longrightarrow>
    eq meq (CollectionObj a ms nm cd) (Object (CollectionObj b ms' nm' cd')) = Some False)"
proof -
  have "\<not> tuple_eq meq ms ms'"
    if m: "mset ms' = mset ms" and d: "ms' \<noteq> ms"
      and p: "\<forall>i<length ms. \<forall>j<length ms. i \<noteq> j \<longrightarrow>
                address (ms ! i) \<noteq> address (ms ! j) \<and> \<not> node_eq meq (ms ! i) (ms ! j)"
  proof -
    from reordered_differs [OF m d] obtain i j where i: "i < length ms" and j: "j < length ms"
      and ij: "i \<noteq> j" and e: "ms' ! i = ms ! j"
      by blast
    from p i j ij have "address (ms ! i) \<noteq> address (ms ! j) \<and> \<not> node_eq meq (ms ! i) (ms ! j)"
      by blast
    with e i show ?thesis by (auto simp: tuple_eq_iff)
  qed
  then show ?thesis by (auto simp: tuple_eq_iff)
qed

theorem eq_iff_children_equal_in_order_witness:
  "mset [MeshObj 2 mesh_B, MeshObj 1 mesh_A] = mset [MeshObj 1 mesh_A, MeshObj 2 mesh_B] \<and>
   [MeshObj 2 mesh_B, MeshObj 1 mesh_A] \<noteq> [MeshObj 1 mesh_A, MeshObj 2 mesh_B] \<and>
   address (MeshObj 1 mesh_A) \<noteq> address (MeshObj 2 mesh_B) \<and>
   \<not> node_eq same_arrays (MeshObj 1 mesh_A) (MeshObj 2 mesh_B) \<and>
   \<not> node_eq same_arrays (MeshObj 2 mesh_B) (MeshObj 1 mesh_A) \<and>
   eq same_arrays (CollectionObj 0 [MeshObj 1 mesh_A, MeshObj 2 mesh_B] None None)
      (Object (CollectionObj 3 [MeshObj 2 mesh_B, MeshObj 1 mesh_A] None None)) = Some False \<and>
   eq same_arrays (CollectionObj 0 [CollectionObj 4 [MeshObj 1 mesh_A] None None] (Some [65]) None)
      (Object (CollectionObj 3 [CollectionObj 5 [MeshObj 2 mesh_B, MeshObj 6 mesh_B] None None]
         None None)) = Some False \<and>
   eq same_arrays (CollectionObj 0 [CollectionObj 4 [MeshObj 1 mesh_A] None None] (Some [65]) None)
      (Object (CollectionObj 3 [CollectionObj 5 [MeshObj 2 mesh_A] (Some [66]) None]
         None None)) = Some True \<and>
   eq (\<lambda>a y. False) (CollectionObj 0 [MeshObj 1 mesh_A] None None)
      (Object (CollectionObj 0 [MeshObj 1 mesh_A] None None)) = Some True \<and>
   eq (\<lambda>a y. False) (CollectionObj 0 [MeshObj 1 mesh_A] None None)
      (Object (CollectionObj 3 [MeshObj 2 mesh_A] None None)) = Some False"
  using eq_iff_children_equal_in_order [of same_arrays 0 "[MeshObj 1 mesh_A, MeshObj 2 mesh_B]" None None
               3 "[MeshObj 2 mesh_B, MeshObj 1 mesh_A]" None None]
  by (simp add: same_arrays_def mesh_A_def mesh_B_def)

subsection \<open>Center of mass\<close>

lemma np_add_scalar_zero: "np_add_scalar 0 v = v"
  by (cases v) auto

lemma np_add_assoc: "np_add (np_add u v) w = np_add u (np_add v w)"
  by (cases u; cases v; cases w) auto

lemma np_add_zero: "np_add v (Finite (0, 0, 0)) = v"
  by (cases v) auto

lemma foldl_np_add: "foldl np_add a vs = np_add a (foldr np_add vs (Finite (0, 0, 0)))"
  by (induction vs arbitrary: a) (simp_all add: np_add_zero np_add_assoc)

lemma foldl_py_add_arrays: "foldl py_add (PyArr a) (map PyArr vs) = PyArr (foldl np_add a vs)"
  by (induction vs arbitrary: a) simp_all

lemma py_sum_arrays:
  assumes "vs \<noteq> []"
  shows "py_sum (map PyArr vs) = PyArr (foldr np_add vs (Finite (0, 0, 0)))"
proof -
  from assms obtain v ws where vs: "vs = v # ws" by (cases vs) auto
  have "py_sum (map PyArr vs) = foldl py_add (PyArr v) (map PyArr ws)"
    by (simp add: py_sum_def vs np_add_scalar_zero)
  also have "\<dots> = PyArr (np_add v (foldr np_add ws (Finite (0, 0, 0))))"
    by (simp only: foldl_py_add_arrays foldl_np_add)
  finally show ?thesis by (simp add: vs)
qed

lemma center_of_mass_is_array:
  "center_of_mass_of_nodes n = Inr v \<Longrightarrow> \<exists>c. v = PyArr c"
proof (induction n arbitrary: v)
  case (Leaf m)
  then show ?case by auto
next
  case (Collection ms nm cd)
  let ?f = "\<lambda>m. map_sum id (py_mul (nb_vertices m)) (center_of_mass_of_nodes m)"
  from Collection.prems obtain ws where c: "collect (map ?f ms) = Inr ws"
    and d: "py_truediv (py_sum ws) (sum_list (map nb_vertices ms)) = Inr v"
    by (auto split: sum.splits)
  from c have m: "map ?f ms = map Inr ws" by (rule collect_Inr_D)
  have len: "length ws = length ms" using arg_cong [OF m, of length] by simp
  have arr: "\<exists>c. ws ! i = PyArr c" if i: "i < length ms" for i
  proof -
    have "map ?f ms ! i = map Inr ws ! i" using m by simp
    then have "?f (ms ! i) = Inr (ws ! i)" using i len by simp
    then obtain u where u: "center_of_mass_of_nodes (ms ! i) = Inr u"
      and w: "ws ! i = py_mul (nb_vertices (ms ! i)) u"
      by (cases "center_of_mass_of_nodes (ms ! i)") auto
    have "ms ! i \<in> set ms" using i by simp
    from Collection.IH [OF this u] w show ?thesis by auto
  qed
  define cs where "cs = map (\<lambda>w. case w of PyArr c \<Rightarrow> c | _ \<Rightarrow> NonFinite) ws"
  have ws: "ws = map PyArr cs"
  proof (rule nth_equalityI)
    show "length ws = length (map PyArr cs)" by (simp add: cs_def)
  next
    fix i assume "i < length ws"
    with arr [of i] len show "ws ! i = map PyArr cs ! i" by (auto simp: cs_def)
  qed
  show ?case
  proof (cases "cs = []")
    case True
    with ws len d show ?thesis by (simp add: py_sum_def)
  next
    case False
    from d show ?thesis unfolding ws py_sum_arrays [OF False] by auto
  qed
qed

lemma foldr_np_add_finite:
  "foldr np_add (map (\<lambda>(n, v). np_scale (of_nat n) (Finite v)) xs) (Finite (0, 0, 0)) =
     Finite (sum_list (map (\<lambda>(n, x, y, z). of_nat n * x) xs),
             sum_list (map (\<lambda>(n, x, y, z). of_nat n * y) xs),
             sum_list (map (\<lambda>(n, x, y, z). of_nat n * z) xs))"
  by (induction xs) auto

lemma weighted_average_finite:
  assumes "0 < sum_list (map fst xs)"
  shows "weighted_average (map (\<lambda>(n, v). (n, Finite v)) xs) =
           Finite (sum_list (map (\<lambda>(n, x, y, z). of_nat n * x) xs) / of_nat (sum_list (map fst xs)),
                   sum_list (map (\<lambda>(n, x, y, z). of_nat n * y) xs) / of_nat (sum_list (map fst xs)),
                   sum_list (map (\<lambda>(n, x, y, z). of_nat n * z) xs) / of_nat (sum_list (map fst xs)))"
proof -
  have a: "map (\<lambda>(n, c). np_scale (of_nat n) c) (map (\<lambda>(n, v). (n, Finite v)) xs) =
           map (\<lambda>(n, v). np_scale (of_nat n) (Finite v)) xs"
    by (simp add: case_prod_unfold)
  have b: "map fst (map (\<lambda>(n, v). (n, Finite v)) xs) = map fst xs"
    by (simp add: case_prod_unfold)
  define N where "N = sum_list (map fst xs)"
  with assms have "0 < N" by simp
  then show ?thesis
    unfolding weighted_average_def a b foldr_np_add_finite N_def [symmetric] by simp
qed

text \<open>
  C8. For a non-empty collection whose children have a center of mass,
  \<open>center_of_mass_of_nodes\<close> is the sum over the children of the child's vertex count
  times the child's center of mass, divided by the sum of the children's vertex
  counts. The counts are the raw numbers of rows of the children's vertex arrays: a
  vertex that occurs in two children counts twice.
\<close>

theorem center_of_mass_of_nodes_weighted_average:
  assumes "ms \<noteq> []"
    and "list_all2 (\<lambda>m c. center_of_mass_of_nodes m = Inr (PyArr c)) ms cs"
  shows "center_of_mass_of_nodes (Collection ms nm cd) =
           Inr (PyArr (weighted_average (zip (map nb_vertices ms) cs)))"
proof -
  from assms(2) have len: "length cs = length ms" by (simp add: list_all2_lengthD)
  let ?ws = "map2 (\<lambda>m c. np_scale (of_nat (nb_vertices m)) c) ms cs"
  have "map (\<lambda>m. map_sum id (py_mul (nb_vertices m)) (center_of_mass_of_nodes m)) ms =
        map Inr (map PyArr ?ws)"
  proof (rule nth_equalityI)
    show "length (map (\<lambda>m. map_sum id (py_mul (nb_vertices m)) (center_of_mass_of_nodes m)) ms) =
          length (map Inr (map PyArr ?ws))"
      using len by simp
  next
    fix i
    assume "i < length (map (\<lambda>m. map_sum id (py_mul (nb_vertices m)) (center_of_mass_of_nodes m)) ms)"
    then have i: "i < length ms" by simp
    from list_all2_nthD [OF assms(2) i]
    have "center_of_mass_of_nodes (ms ! i) = Inr (PyArr (cs ! i))" .
    then show "map (\<lambda>m. map_sum id (py_mul (nb_vertices m)) (center_of_mass_of_nodes m)) ms ! i =
               map Inr (map PyArr ?ws) ! i"
      using i len by simp
  qed
  then have c: "collect (map (\<lambda>m. map_sum id (py_mul (nb_vertices m))
                                   (center_of_mass_of_nodes m)) ms) = Inr (map PyArr ?ws)"
    by (simp only: collect_map_Inr)
  have ne: "?ws \<noteq> []" using assms(1) len by (cases ms; cases cs) auto
  have ws: "?ws = map (\<lambda>(n, c). np_scale (of_nat n) c) (zip (map nb_vertices ms) cs)"
    by (simp add: zip_map1 case_prod_unfold)
  have tot: "map fst (zip (map nb_vertices ms) cs) = map nb_vertices ms"
    using len by simp
  have "center_of_mass_of_nodes (Collection ms nm cd) =
        py_truediv (py_sum (map PyArr ?ws)) (sum_list (map nb_vertices ms))"
    using c by simp
  also have "\<dots> = Inr (PyArr (np_div (foldr np_add ?ws (Finite (0, 0, 0)))
                                     (of_nat (sum_list (map nb_vertices ms)))))"
    by (simp only: py_sum_arrays [OF ne] py_truediv.simps)
  also have "\<dots> = Inr (PyArr (weighted_average (zip (map nb_vertices ms) cs)))"
    unfolding weighted_average_def tot ws ..
  finally show ?thesis .
qed

theorem center_of_mass_of_nodes_weighted_average_witness:
  "[Leaf mesh_A, Leaf mesh_A, Leaf mesh_B] \<noteq> [] \<and>
   list_all2 (\<lambda>m c. center_of_mass_of_nodes m = Inr (PyArr c))
     [Leaf mesh_A, Leaf mesh_A, Leaf mesh_B]
     [Finite (1 / 2, 1 / 2, 0), Finite (1 / 2, 1 / 2, 0), Finite (1 / 2, 1 / 2, 1)] \<and>
   center_of_mass_of_nodes (Collection [Leaf mesh_A, Leaf mesh_A, Leaf mesh_B] None None) =
     Inr (PyArr (Finite (1 / 2, 1 / 2, 1 / 3)))"
  using center_of_mass_of_nodes_weighted_average [of "[Leaf mesh_A, Leaf mesh_A, Leaf mesh_B]"
               "[Finite (1 / 2, 1 / 2, 0), Finite (1 / 2, 1 / 2, 0), Finite (1 / 2, 1 / 2, 1)]"
               None None]
  by (simp add: mesh_A_def mesh_B_def weighted_average_def)

text \<open>
  C1, as specified: on an empty collection the center of mass and every other
  aggregate raise \<open>EmptyCollectionError\<close>, never a generic arithmetic error. This
  fails on the empty collection without a name: its center of mass raises
  \<open>ZeroDivisionError\<close>, the error of the division of \<open>0\<close> by \<open>0\<close>, and its
  \<open>nb_faces\<close> returns \<open>0\<close>.
\<close>

theorem empty_collection_counterexample:
  "center_of_mass_of_nodes (Collection [] None None) = Inl ZeroDivisionError \<and>
   center_of_mass_of_nodes (Collection [] None None) \<noteq> Inl EmptyCollectionError \<and>
   nb_faces (Collection [] None None) = 0"
  by (simp add: py_sum_def)

text \<open>
  C1, amended. On every empty collection \<open>center_of_mass_of_nodes\<close> raises
  \<open>ZeroDivisionError\<close>, \<open>vertices\<close> and \<open>faces\<close> raise the \<open>ValueError\<close> of
  \<^verbatim>\<open>np.concatenate\<close>, and \<open>nb_vertices\<close>, \<open>nb_faces\<close> and \<open>volume\<close> return \<open>0\<close>.
\<close>

theorem empty_collection_aggregates:
  "center_of_mass_of_nodes (Collection [] nm cd) = Inl ZeroDivisionError \<and>
   vertices (Collection [] nm cd) = Inl ValueError \<and>
   faces (Collection [] nm cd) = Inl ValueError \<and>
   nb_vertices (Collection [] nm cd) = 0 \<and>
   nb_faces (Collection [] nm cd) = 0 \<and>
   volume (Collection [] nm cd) = 0"
  by (simp add: py_sum_def)

theorem empty_collection_aggregates_witness:
  "center_of_mass_of_nodes (Collection [] (Some [65]) None) = Inl ZeroDivisionError \<and>
   vertices (Collection [] (Some [65]) None) = Inl ValueError \<and>
   volume (Collection [] (Some [65]) None) = 0"
  using empty_collection_aggregates [of "Some [65]" None] by simp

subsection \<open>Construction\<close>

lemma check_meshes_Other: "Other \<in> set objs \<Longrightarrow> check_meshes objs = Inl AssertionError"
proof (induction objs)
  case Nil
  then show ?case by simp
next
  case (Cons obj objs)
  then show ?case by (cases obj) auto
qed

text \<open>
  C2, as specified: constructing a collection from a sequence with an element that is
  neither a mesh nor a collection fails with \<open>TypeMismatchError\<close>. This fails on the
  sequence of one such object: the constructor raises \<open>AssertionError\<close>.
\<close>

theorem init_counterexample:
  "init [Other] None = Inl AssertionError \<and> init [Other] None \<noteq> Inl TypeMismatchError"
  by (simp add: init_def)

text \<open>
  C2, amended. With assertions enabled, constructing a collection from a sequence that
  holds an element that is neither a mesh nor a collection fails with
  \<open>AssertionError\<close>; no collection is built.
\<close>

theorem init_rejects_other_objects: "Other \<in> set objs \<Longrightarrow> init objs nm = Inl AssertionError"
  by (simp add: init_def check_meshes_Other)

theorem init_rejects_other_objects_witness:
  "Other \<in> set [Node (Leaf mesh_A), Other, Node (Leaf mesh_B)] \<and>
   init [Node (Leaf mesh_A), Other, Node (Leaf mesh_B)] (Some [65]) = Inl AssertionError"
  using init_rejects_other_objects [of "[Node (Leaf mesh_A), Other, Node (Leaf mesh_B)]" "Some [65]"] by simp

subsection \<open>Tree rendering\<close>

lemma split_lines_nonempty: "split_lines s \<noteq> []"
  by (induction s) (auto split: list.splits)

lemma split_lines_Cons:
  "c \<noteq> 10 \<Longrightarrow> split_lines (c # s) = (c # hd (split_lines s)) # tl (split_lines s)"
  using split_lines_nonempty [of s] by (cases "split_lines s") auto

lemma split_lines_prepend:
  "10 \<notin> set p \<Longrightarrow> split_lines (p @ s) = (p @ hd (split_lines s)) # tl (split_lines s)"
proof (induction p)
  case Nil
  then show ?case using split_lines_nonempty [of s] by simp
next
  case (Cons c p)
  then show ?case by (simp add: split_lines_Cons del: split_lines.simps)
qed

lemma split_lines_append_newline:
  "split_lines (a @ 10 # b) = split_lines a @ split_lines b"
proof (induction a)
  case Nil
  then show ?case by simp
next
  case (Cons c a)
  then show ?case
    using split_lines_nonempty [of a] by (cases "split_lines a") auto
qed

lemma split_lines_str_replace:
  assumes "10 \<notin> set bar"
  shows "split_lines (str_replace 10 (newline @ bar) s) =
           hd (split_lines s) # map ((@) bar) (tl (split_lines s))"
proof (induction s)
  case Nil
  then show ?case by simp
next
  case (Cons c s)
  show ?case
  proof (cases "c = 10")
    case True
    have "split_lines (str_replace 10 (newline @ bar) (c # s)) =
          [] # split_lines (bar @ str_replace 10 (newline @ bar) s)"
      using True by (simp add: newline_def)
    also have "\<dots> = [] # (bar @ hd (split_lines s)) # map ((@) bar) (tl (split_lines s))"
      by (simp add: split_lines_prepend [OF assms] Cons.IH)
    also have "\<dots> = [] # map ((@) bar) (split_lines s)"
      using split_lines_nonempty [of s] by (cases "split_lines s") auto
    finally show ?thesis using True by simp
  next
    case False
    then show ?thesis
      by (simp add: split_lines_Cons Cons.IH del: split_lines.simps)
  qed
qed

lemma split_lines_body:
  assumes "10 \<notin> set glyph" and "10 \<notin> set bar"
  shows "split_lines (glyph @ str_replace 10 (newline @ bar) tv) = rendered_child glyph bar tv"
  by (simp add: split_lines_prepend [OF assms(1)] split_lines_str_replace [OF assms(2)]
      rendered_child_def)

lemma split_lines_str_join:
  "ss \<noteq> [] \<Longrightarrow> split_lines (str_join newline ss) = concat (map split_lines ss)"
proof (induction newline ss rule: str_join.induct)
  case 1
  then show ?case by simp
next
  case (2 s)
  then show ?case by simp
next
  case (3 s t ss)
  then show ?case by (simp add: newline_def split_lines_append_newline del: split_lines.simps)
qed

lemma body_tree_views:
  assumes "length tvs = n" and "tvs \<noteq> []"
  shows "map2 (body_tree_view n) [0..<n] tvs =
           map (\<lambda>tv. branch_prefix @ str_replace 10 (newline @ branch_shift) tv) (butlast tvs)
           @ [corner_prefix @ str_replace 10 (newline @ corner_shift) (last tvs)]"
proof (rule nth_equalityI)
  show "length (map2 (body_tree_view n) [0..<n] tvs) =
        length (map (\<lambda>tv. branch_prefix @ str_replace 10 (newline @ branch_shift) tv) (butlast tvs)
                @ [corner_prefix @ str_replace 10 (newline @ corner_shift) (last tvs)])"
    using assms by (cases tvs) auto
next
  fix i assume "i < length (map2 (body_tree_view n) [0..<n] tvs)"
  then have i: "i < n" using assms by simp
  show "map2 (body_tree_view n) [0..<n] tvs ! i =
        (map (\<lambda>tv. branch_prefix @ str_replace 10 (newline @ branch_shift) tv) (butlast tvs)
         @ [corner_prefix @ str_replace 10 (newline @ corner_shift) (last tvs)]) ! i"
  proof (cases "i = n - 1")
    case True
    then have "int i = int n - 1" using i by simp
    moreover have "last tvs = tvs ! i" using assms True by (simp add: last_conv_nth)
    ultimately show ?thesis
      using i assms True by (simp add: body_tree_view_def nth_append)
  next
    case False
    then have l: "i < n - 1" using i by simp
    then have "int i \<noteq> int n - 1" by simp
    moreover have "butlast tvs ! i = tvs ! i" using l assms by (simp add: nth_butlast)
    ultimately show ?thesis
      using i l assms by (simp add: body_tree_view_def nth_append)
  qed
qed

text \<open>
  C9. For a named collection with at least one child whose children all render,
  \<open>tree_view\<close> returns a string whose lines are the lines of the name, then for every
  child but the last its first line behind the branch glyph (space, U+251C, U+2500)
  and each of its other lines behind the bar (space, U+2502, space), then for the last
  child its first line behind the corner glyph (space, U+2514, U+2500) and each of its
  other lines behind three spaces.
\<close>

theorem tree_view_branch_and_corner:
  assumes "ms \<noteq> []" and "list_all2 (\<lambda>m tv. tree_view m = Inr tv) ms tvs"
  shows "\<exists>out. tree_view (Collection ms (Some nm) cd) = Inr out \<and>
           split_lines out =
             split_lines nm
             @ concat (map (rendered_child branch_prefix branch_shift) (butlast tvs))
             @ rendered_child corner_prefix corner_shift (last tvs)"
proof -
  from assms(2) have len: "length tvs = length ms" by (simp add: list_all2_lengthD)
  with assms(1) have ne: "tvs \<noteq> []" by auto
  let ?bodies = "map2 (body_tree_view (length ms)) [0..<length ms] tvs"
  have "map2 (\<lambda>i r. map_sum id (body_tree_view (length ms) i) r)
             [0..<length ms] (map tree_view ms) = map Inr ?bodies"
  proof (rule nth_equalityI)
    show "length (map2 (\<lambda>i r. map_sum id (body_tree_view (length ms) i) r)
                       [0..<length ms] (map tree_view ms)) = length (map Inr ?bodies)"
      using len by simp
  next
    fix i
    assume "i < length (map2 (\<lambda>i r. map_sum id (body_tree_view (length ms) i) r)
                             [0..<length ms] (map tree_view ms))"
    then have i: "i < length ms" by simp
    from list_all2_nthD [OF assms(2) i] have "tree_view (ms ! i) = Inr (tvs ! i)" .
    then show "map2 (\<lambda>i r. map_sum id (body_tree_view (length ms) i) r)
                    [0..<length ms] (map tree_view ms) ! i = map Inr ?bodies ! i"
      using i len by simp
  qed
  then have "collect (map2 (\<lambda>i r. map_sum id (body_tree_view (length ms) i) r)
                           [0..<length ms] (map tree_view ms)) = Inr ?bodies"
    by (simp only: collect_map_Inr)
  then have out: "tree_view (Collection ms (Some nm) cd) =
                  Inr (nm @ newline @ str_join newline ?bodies)"
    by simp
  have bne: "?bodies \<noteq> []" using ne len assms(1) by (cases ms; cases tvs) auto
  have g: "10 \<notin> set branch_prefix" "10 \<notin> set branch_shift"
    "10 \<notin> set corner_prefix" "10 \<notin> set corner_shift"
    by (simp_all add: branch_prefix_def branch_shift_def corner_prefix_def corner_shift_def)
  have "split_lines (nm @ newline @ str_join newline ?bodies) =
        split_lines nm @ concat (map split_lines ?bodies)"
    by (simp add: newline_def split_lines_append_newline
        split_lines_str_join [OF bne, unfolded newline_def] del: split_lines.simps)
  also have "map split_lines ?bodies =
             map (rendered_child branch_prefix branch_shift) (butlast tvs)
             @ [rendered_child corner_prefix corner_shift (last tvs)]"
    unfolding body_tree_views [OF len ne]
    by (simp add: split_lines_body g del: split_lines.simps)
  finally show ?thesis using out by simp
qed

theorem tree_view_branch_and_corner_witness:
  "[Collection [Leaf mesh_A, Leaf mesh_B] (Some [67]) None, Leaf mesh_B] \<noteq> [] \<and>
   list_all2 (\<lambda>m tv. tree_view m = Inr tv)
     [Collection [Leaf mesh_A, Leaf mesh_B] (Some [67]) None, Leaf mesh_B]
     [[67, 10, 32, 9500, 9472, 65, 10, 32, 9492, 9472, 66], [66]] \<and>
   (\<exists>out. tree_view (Collection [Collection [Leaf mesh_A, Leaf mesh_B] (Some [67]) None,
                                  Leaf mesh_B] (Some [82]) None) = Inr out \<and>
      split_lines out =
        [[82],
         [32, 9500, 9472, 67],
         [32, 9474, 32, 32, 9500, 9472, 65],
         [32, 9474, 32, 32, 9492, 9472, 66],
         [32, 9492, 9472, 66]])"
  using tree_view_branch_and_corner [of "[Collection [Leaf mesh_A, Leaf mesh_B] (Some [67]) None, Leaf mesh_B]"
               "[[67, 10, 32, 9500, 9472, 65, 10, 32, 9492, 9472, 66], [66]]" "[82]" None]
  by (simp add: mesh_A_def mesh_B_def body_tree_view_def newline_def rendered_child_def
      branch_prefix_def branch_shift_def corner_prefix_def corner_shift_def)

lemma collect_Inl_D: "collect rs = Inl e \<Longrightarrow> Inl e \<in> set rs"
proof (induction rs)
  case Nil
  then show ?case by simp
next
  case (Cons r rs)
  then show ?case by (cases r) (auto split: sum.splits)
qed

lemma tree_view_error: "tree_view n = Inl e \<Longrightarrow> e = TypeError"
proof (induction n arbitrary: e)
  case (Leaf m)
  then show ?case by simp
next
  case (Collection ms nm cd)
  let ?rs = "map2 (\<lambda>i r. map_sum id (body_tree_view (length ms) i) r)
                  [0..<length ms] (map tree_view ms)"
  show ?case
  proof (cases "collect ?rs")
    case (Inl e')
    with Collection.prems have e: "e' = e" by simp
    from collect_Inl_D [OF Inl] obtain i where i: "i < length ms"
      and "map_sum id (body_tree_view (length ms) i) (tree_view (ms ! i)) = Inl e'"
      by (auto simp: set_zip)
    then have "tree_view (ms ! i) = Inl e'" by (cases "tree_view (ms ! i)") auto
    moreover have "ms ! i \<in> set ms" using i by simp
    ultimately have "e' = TypeError" by (rule Collection.IH [rotated])
    with e show ?thesis by simp
  next
    case (Inr bodies)
    with Collection.prems show ?thesis by (cases nm) auto
  qed
qed

text \<open>
  C10. On a collection whose name is \<^verbatim>\<open>None\<close>, \<open>tree_view\<close> returns no string: it
  raises \<open>TypeError\<close>, whatever the children are.
\<close>

theorem tree_view_unnamed_fails: "tree_view (Collection ms None cd) = Inl TypeError"
proof (cases "tree_view (Collection ms None cd)")
  case (Inl e)
  with tree_view_error [OF Inl] show ?thesis by simp
next
  case (Inr s)
  then show ?thesis by (auto split: sum.splits)
qed

theorem tree_view_unnamed_fails_witness:
  "tree_view (Collection [Leaf mesh_A, Leaf mesh_B] None None) = Inl TypeError"
  using tree_view_unnamed_fails [of "[Leaf mesh_A, Leaf mesh_B]" None] by simp

end
